theory Spec2Isabelle
  imports Complex_Main "HOL-Library.AList"
begin

section \<open>The token-bucket throttler of globus\_throttled\<close>

text \<open>
  This theory embeds \<^verbatim>\<open>src/globus_throttled/throttler.py\<close>: the class
  \<^verbatim>\<open>Throttler\<close> with its nested dictionary \<^verbatim>\<open>_resource_buckets\<close>, the
  refill step \<^verbatim>\<open>_update_item\<close>, the admission path \<^verbatim>\<open>handle_event\<close> and the
  mark-and-sweep pass \<^verbatim>\<open>cleanup\<close>.

  Conventions of the embedding.
  \<^item> A Python dictionary is an association list handled with \<open>map_of\<close> (lookup),
    \<open>AList.update\<close> (\<^verbatim>\<open>d[k] = v\<close>: replace in place, or append a new key),
    \<open>AList.delete\<close> (\<^verbatim>\<open>d.pop(k, None)\<close>) and \<open>AList.map_entry\<close> (mutation of
    the value stored under a key, through the reference the code holds).
  \<^item> The object state \<^verbatim>\<open>self._resource_buckets\<close> is passed in and returned.
  \<^item> \<^verbatim>\<open>time.time()\<close> is an input: the reading is an argument of the function
    that takes it. Readings, and the token counts computed from them, are Python floats;
    they are modelled by the rationals they denote, so rounding is not modelled.
  \<^item> An exception is a value \<open>Inl e\<close> of a sum type. A method that can raise
    after it has mutated the store returns the outcome together with the store as the
    exception leaves it.
  \<^item> \<^verbatim>\<open>print\<close> calls, and the counter \<^verbatim>\<open>total_items\<close> that only feeds one,
    are left out.
\<close>

subsection \<open>Module constants\<close>

definition TOKEN_BUCKET_FILL_RATE :: int where
  "TOKEN_BUCKET_FILL_RATE = 1"

definition TOKEN_BUCKET_MAX :: int where
  "TOKEN_BUCKET_MAX = 10"

definition TOKEN_BUCKET_START :: int where
  "TOKEN_BUCKET_START = TOKEN_BUCKET_MAX"

subsection \<open>Data\<close>

text \<open>
  The dictionary \<^verbatim>\<open>evaluated_params\<close>. Its three values have passed
  \<^verbatim>\<open>isinstance(_, int)\<close>, so they are Python ints (unbounded) or bools, and a
  bool computes as 0 or 1: the fields are integers.
\<close>

record params =
  fill_rate :: int
  bucket_max :: int
  bucket_start :: int

text \<open>The dictionary stored per key pair by \<^verbatim>\<open>_get_item\<close>.\<close>

record item =
  last_access :: rat
  num_tokens :: rat
  last_params :: params

type_synonym bucket_collection = "(string \<times> item) list"
type_synonym resource_buckets = "(string \<times> bucket_collection) list"

text \<open>A decoded JSON value, as \<^verbatim>\<open>tornado.escape.json_decode\<close> returns it.\<close>

datatype json =
    JNull
  | JBool bool
  | JInt int
  | JFloat rat
  | JStr string
  | JArr "json list"
  | JObj "(string \<times> json) list"

text \<open>
  The event dictionary. A field is \<open>None\<close> when the key is absent. The two
  identifiers are strings, as the event format has them; \<^verbatim>\<open>throttle_params\<close>
  is any JSON value.
\<close>

record event =
  ev_requester_id :: "string option"
  ev_resource_id :: "string option"
  ev_throttle_params :: "json option"

record response =
  allow_request :: bool
  denial_details :: "string option"

datatype error =
    HTTPError int string
  | AttributeError
  | KeyError

subsection \<open>\<^verbatim>\<open>Throttler.__init__\<close>\<close>

definition init :: resource_buckets where
  "init = []"

subsection \<open>\<^verbatim>\<open>Throttler._get_item\<close>\<close>

text \<open>
  Returns the item and the store, in which the missing group and the missing item
  have been inserted.
\<close>

definition get_item ::
  "string \<Rightarrow> string \<Rightarrow> rat \<Rightarrow> params \<Rightarrow> resource_buckets \<Rightarrow> item \<times> resource_buckets" where
  "get_item resource_id requester_id now ps rb =
     (let (bucket_collection, rb1) =
            (case map_of rb resource_id of
               Some bc \<Rightarrow> (bc, rb)
             | None \<Rightarrow> ([], AList.update resource_id [] rb))
      in case map_of bucket_collection requester_id of
           Some it \<Rightarrow> (it, rb1)
         | None \<Rightarrow>
             (let it = \<lparr>last_access = now,
                        num_tokens = of_int (bucket_start ps),
                        last_params = ps\<rparr>
              in (it, AList.map_entry resource_id (AList.update requester_id it) rb1)))"

subsection \<open>\<^verbatim>\<open>Throttler._update_item\<close>\<close>

definition update_item :: "item \<Rightarrow> rat \<Rightarrow> params \<Rightarrow> item" where
  "update_item it now ps =
     (let delta = max 0 (of_int (fill_rate ps) * (now - last_access it))
      in it\<lparr>num_tokens := min (of_int (bucket_max ps)) (num_tokens it + delta),
            last_access := now,
            last_params := ps\<rparr>)"

subsection \<open>\<^verbatim>\<open>Throttler._consume_token\<close>\<close>

text \<open>
  The item is mutated through the reference that \<^verbatim>\<open>_get_item\<close> returned, so
  every assignment to it is an assignment in the store: \<open>set_item\<close> writes the item
  at its key pair.
\<close>

definition set_item :: "string \<Rightarrow> string \<Rightarrow> item \<Rightarrow> resource_buckets \<Rightarrow> resource_buckets" where
  "set_item resource_id requester_id it rb =
     AList.map_entry resource_id (AList.map_entry requester_id (\<lambda>_. it)) rb"

definition consume_token ::
  "string \<Rightarrow> string \<Rightarrow> rat \<Rightarrow> params \<Rightarrow> resource_buckets \<Rightarrow> bool \<times> resource_buckets" where
  "consume_token resource_id requester_id now ps rb =
     (let (it, rb1) = get_item resource_id requester_id now ps rb;
          it1 = update_item it now ps;
          new_val = num_tokens it1 - 1
      in if new_val < 0
         then (False, set_item resource_id requester_id it1 rb1)
         else (True, set_item resource_id requester_id (it1\<lparr>num_tokens := new_val\<rparr>) rb1))"

subsection \<open>\<^verbatim>\<open>Throttler._validate_request\<close>\<close>

text \<open>\<^verbatim>\<open>isinstance(v, int)\<close>: \<^verbatim>\<open>bool\<close> is a subclass of \<^verbatim>\<open>int\<close>.\<close>

fun isinstance_int :: "json \<Rightarrow> bool" where
  "isinstance_int (JInt n) = True"
| "isinstance_int (JBool b) = True"
| "isinstance_int _ = False"

text \<open>
  \<^verbatim>\<open>d.get(k, default)\<close> on a decoded JSON value: only a dictionary has the
  method.
\<close>

fun json_get :: "json \<Rightarrow> string \<Rightarrow> json \<Rightarrow> error + json" where
  "json_get (JObj d) k dflt = Inr (case map_of d k of None \<Rightarrow> dflt | Some v \<Rightarrow> v)"
| "json_get _ k dflt = Inl AttributeError"

text \<open>\<^verbatim>\<open>request.get('throttle_params', {})\<close>\<close>

definition get_throttle_params :: "event \<Rightarrow> json" where
  "get_throttle_params request =
     (case ev_throttle_params request of None \<Rightarrow> JObj [] | Some j \<Rightarrow> j)"

fun check_params :: "string list \<Rightarrow> json \<Rightarrow> error + unit" where
  "check_params [] ps = Inr ()"
| "check_params (x # xs) ps =
     (case json_get ps x (JInt 0) of
        Inl e \<Rightarrow> Inl e
      | Inr v \<Rightarrow>
          if \<not> isinstance_int v
          then Inl (HTTPError 400 (''throttle_params.'' @ x @ '' must be an int''))
          else check_params xs ps)"

definition validate_request :: "event \<Rightarrow> error + unit" where
  "validate_request request =
     (if ev_requester_id request = None
      then Inl (HTTPError 400 ''requester_id is required'')
      else if ev_resource_id request = None
      then Inl (HTTPError 400 ''resource_id is required'')
      else check_params [''fill_rate'', ''bucket_max'', ''bucket_start'']
             (get_throttle_params request))"

subsection \<open>\<^verbatim>\<open>Throttler.handle_event\<close>\<close>

text \<open>The integer a validated parameter computes as.\<close>

fun int_of_json :: "json \<Rightarrow> int" where
  "int_of_json (JInt n) = n"
| "int_of_json (JBool b) = (if b then 1 else 0)"
| "int_of_json _ = 0"

definition evaluate_params :: "json \<Rightarrow> error + params" where
  "evaluate_params throttle_params =
     (case json_get throttle_params ''fill_rate'' (JInt TOKEN_BUCKET_FILL_RATE) of
        Inl e \<Rightarrow> Inl e
      | Inr fr \<Rightarrow>
     (case json_get throttle_params ''bucket_max'' (JInt TOKEN_BUCKET_MAX) of
        Inl e \<Rightarrow> Inl e
      | Inr bm \<Rightarrow>
     (case json_get throttle_params ''bucket_start'' (JInt TOKEN_BUCKET_START) of
        Inl e \<Rightarrow> Inl e
      | Inr bs \<Rightarrow>
          Inr \<lparr>fill_rate = int_of_json fr,
               bucket_max = int_of_json bm,
               bucket_start = int_of_json bs\<rparr>)))"

text \<open>
  The call \<^verbatim>\<open>self._consume_token(requester_id, resource_id, now, ...)\<close> passes
  the requester first, to a method whose first parameter is \<^verbatim>\<open>resource_id\<close>: the
  outer dictionary is keyed by the event's requester and the inner one by its
  resource. The model keeps the call as it is written.
\<close>

definition handle_event ::
  "rat \<Rightarrow> event \<Rightarrow> resource_buckets \<Rightarrow> (error + response) \<times> resource_buckets" where
  "handle_event now ev rb =
     (case validate_request ev of
        Inl e \<Rightarrow> (Inl e, rb)
      | Inr _ \<Rightarrow>
     (case ev_requester_id ev of
        None \<Rightarrow> (Inl KeyError, rb)
      | Some requester_id \<Rightarrow>
     (case ev_resource_id ev of
        None \<Rightarrow> (Inl KeyError, rb)
      | Some resource_id \<Rightarrow>
     (case evaluate_params (get_throttle_params ev) of
        Inl e \<Rightarrow> (Inl e, rb)
      | Inr evaluated_params \<Rightarrow>
          (let (has_capacity, rb1) =
                 consume_token requester_id resource_id now evaluated_params rb
           in if has_capacity
              then (Inr \<lparr>allow_request = True, denial_details = None\<rparr>, rb1)
              else (Inr \<lparr>allow_request = False,
                         denial_details = Some ''No detail today!''\<rparr>, rb1))))))"

subsection \<open>\<^verbatim>\<open>Throttler.cleanup\<close>\<close>

text \<open>
  The mark loop reads \<^verbatim>\<open>time.time()\<close> once for each item it visits; \<open>clock k1 k2\<close>
  is the reading taken at the item stored under the outer key \<open>k1\<close> and the inner key
  \<open>k2\<close>. The set \<^verbatim>\<open>marked\<close> is a list without duplicates (\<open>List.insert\<close> adds an
  element that is not yet there), and the sweep loop visits it from its head.
\<close>

fun mark_collection ::
  "(string \<Rightarrow> string \<Rightarrow> rat) \<Rightarrow> string \<Rightarrow> bucket_collection \<Rightarrow> (string \<times> string) list
     \<Rightarrow> bucket_collection \<times> (string \<times> string) list" where
  "mark_collection clock resource_id [] marked = ([], marked)"
| "mark_collection clock resource_id ((requester_id, it) # rest) marked =
     (let it1 = update_item it (clock resource_id requester_id) (last_params it);
          marked1 = (if num_tokens it1 \<ge> of_int (bucket_max (last_params it1))
                     then List.insert (resource_id, requester_id) marked
                     else marked);
          (rest1, marked2) = mark_collection clock resource_id rest marked1
      in ((requester_id, it1) # rest1, marked2))"

fun mark ::
  "(string \<Rightarrow> string \<Rightarrow> rat) \<Rightarrow> resource_buckets \<Rightarrow> (string \<times> string) list
     \<Rightarrow> resource_buckets \<times> (string \<times> string) list" where
  "mark clock [] marked = ([], marked)"
| "mark clock ((resource_id, bucket_collection) # rest) marked =
     (let (bc1, marked1) = mark_collection clock resource_id bucket_collection marked;
          (rest1, marked2) = mark clock rest marked1
      in ((resource_id, bc1) # rest1, marked2))"

fun sweep ::
  "(string \<times> string) list \<Rightarrow> resource_buckets \<Rightarrow> (error + unit) \<times> resource_buckets" where
  "sweep [] rb = (Inr (), rb)"
| "sweep ((resource_id, requester_id) # marked) rb =
     (case map_of rb resource_id of
        None \<Rightarrow> (Inl KeyError, rb)
      | Some bc \<Rightarrow>
          (let rb1 = AList.map_entry resource_id (AList.delete requester_id) rb
           in case map_of rb1 resource_id of
                None \<Rightarrow> (Inl KeyError, rb1)
              | Some bc1 \<Rightarrow>
                  if length bc1 = 0
                  then sweep marked (AList.delete resource_id rb1)
                  else sweep marked rb1))"

definition cleanup ::
  "(string \<Rightarrow> string \<Rightarrow> rat) \<Rightarrow> resource_buckets \<Rightarrow> (error + unit) \<times> resource_buckets" where
  "cleanup clock rb =
     (if length rb = 0 then (Inr (), rb)
      else (let (rb1, marked) = mark clock rb [] in sweep marked rb1))"

subsection \<open>Reading the store\<close>

text \<open>The item stored under an outer and an inner key, if any.\<close>

definition lookup :: "resource_buckets \<Rightarrow> string \<Rightarrow> string \<Rightarrow> item option" where
  "lookup rb k1 k2 = (case map_of rb k1 of None \<Rightarrow> None | Some bc \<Rightarrow> map_of bc k2)"

section \<open>Vocabulary of the statements\<close>

text \<open>
  The definitions of this section are not in the source: they name what the statements
  below talk about.
\<close>

text \<open>The parameters \<^verbatim>\<open>handle_event\<close> evaluates when the event supplies none.\<close>

definition default_params :: params where
  "default_params =
     \<lparr>fill_rate = TOKEN_BUCKET_FILL_RATE, bucket_max = TOKEN_BUCKET_MAX,
      bucket_start = TOKEN_BUCKET_START\<rparr>"

text \<open>The item \<^verbatim>\<open>_get_item\<close> creates for a key pair it has not seen.\<close>

definition new_item :: "rat \<Rightarrow> params \<Rightarrow> item" where
  "new_item now ps =
     \<lparr>last_access = now, num_tokens = of_int (bucket_start ps), last_params = ps\<rparr>"

text \<open>
  The consume step, the last lines of \<^verbatim>\<open>_consume_token\<close>, as a function of the
  refilled item.
\<close>

definition spend :: "item \<Rightarrow> item" where
  "spend it = (if num_tokens it - 1 < 0 then it else it\<lparr>num_tokens := num_tokens it - 1\<rparr>)"

text \<open>The two dictionaries \<^verbatim>\<open>handle_event\<close> returns.\<close>

definition allowed :: "error + response" where
  "allowed = Inr \<lparr>allow_request = True, denial_details = None\<rparr>"

definition denied :: "error + response" where
  "denied = Inr \<lparr>allow_request = False, denial_details = Some ''No detail today!''\<rparr>"

text \<open>
  A sequence of requests, each with the clock reading it is served at: the outcomes in
  order, and the store at the end.
\<close>

fun serve ::
  "(rat \<times> event) list \<Rightarrow> resource_buckets
     \<Rightarrow> (error + response) list \<times> resource_buckets" where
  "serve [] rb = ([], rb)"
| "serve ((now, ev) # rest) rb =
     (let (out, rb1) = handle_event now ev rb;
          (outs, rb2) = serve rest rb1
      in (out # outs, rb2))"

text \<open>
  The operations the hosting process applies to the store: an admission request served
  at a clock reading, and a cleanup pass with the readings of its mark loop. An
  operation that raises leaves the store as the exception found it.
\<close>

datatype operation =
    Event rat event
  | Cleanup "string \<Rightarrow> string \<Rightarrow> rat"

fun step :: "operation \<Rightarrow> resource_buckets \<Rightarrow> resource_buckets" where
  "step (Event now ev) rb = snd (handle_event now ev rb)"
| "step (Cleanup clock) rb = snd (cleanup clock rb)"

definition run :: "operation list \<Rightarrow> resource_buckets \<Rightarrow> resource_buckets" where
  "run ops rb = fold step ops rb"





text \<open>
  What makes an association list a dictionary: a key occurs once, in the outer list and
  in every inner one.
\<close>

definition wf_store :: "resource_buckets \<Rightarrow> bool" where
  "wf_store rb \<longleftrightarrow>
     distinct (map fst rb) \<and> list_all (\<lambda>(k1, bc). distinct (map fst bc)) rb"

text \<open>
  The refill the mark loop applies to the item under the keys \<open>k1\<close> and \<open>k2\<close>, and
  its test for marking the item.
\<close>

definition refill :: "(string \<Rightarrow> string \<Rightarrow> rat) \<Rightarrow> string \<Rightarrow> string \<Rightarrow> item \<Rightarrow> item" where
  "refill clock k1 k2 it = update_item it (clock k1 k2) (last_params it)"

definition full :: "item \<Rightarrow> bool" where
  "full it \<longleftrightarrow> num_tokens it \<ge> of_int (bucket_max (last_params it))"

section \<open>Properties of the refill step\<close>

lemma update_item_tokens_le:
  "num_tokens (update_item it now ps) \<le> of_int (bucket_max ps)"
  by (simp add: update_item_def Let_def)

lemma update_item_last_access [simp]:
  "last_access (update_item it now ps) = now"
  by (simp add: update_item_def Let_def)

lemma update_item_last_params [simp]:
  "last_params (update_item it now ps) = ps"
  by (simp add: update_item_def Let_def)






section \<open>The store under the admission path\<close>

lemma lookup_update:
  "lookup (AList.update k bc rb) k1 k2 = (if k1 = k then map_of bc k2 else lookup rb k1 k2)"
  by (simp add: lookup_def AList.update_conv')

lemma lookup_map_entry:
  "lookup (AList.map_entry k f rb) k1 k2 =
     (if k1 = k then (case map_of rb k of None \<Rightarrow> None | Some bc \<Rightarrow> map_of (f bc) k2)
      else lookup rb k1 k2)"
  by (simp add: lookup_def AList.map_of_map_entry split: option.splits)

lemma lookup_delete:
  "lookup (AList.delete k rb) k1 k2 = (if k1 = k then None else lookup rb k1 k2)"
  by (simp add: lookup_def AList.delete_conv')

lemma fst_get_item:
  "fst (get_item r q now ps rb) =
     (case lookup rb r q of None \<Rightarrow> new_item now ps | Some it \<Rightarrow> it)"
  by (simp add: get_item_def lookup_def new_item_def Let_def split: option.splits)

lemma lookup_get_item:
  "lookup (snd (get_item r q now ps rb)) k1 k2 =
     (if k1 = r \<and> k2 = q then Some (fst (get_item r q now ps rb)) else lookup rb k1 k2)"
  by (auto simp add: get_item_def lookup_def Let_def AList.map_of_map_entry AList.update_conv'
      split: option.splits)

lemma lookup_set_item:
  "lookup (set_item r q it rb) k1 k2 =
     (if k1 = r \<and> k2 = q \<and> lookup rb r q \<noteq> None then Some it else lookup rb k1 k2)"
  by (auto simp add: set_item_def lookup_def AList.map_of_map_entry split: option.splits)

lemma fst_consume_token:
  "fst (consume_token r q now ps rb) =
     (\<not> num_tokens (update_item (fst (get_item r q now ps rb)) now ps) - 1 < 0)"
  by (simp add: consume_token_def Let_def split: prod.splits)

lemma lookup_consume_token:
  "lookup (snd (consume_token r q now ps rb)) k1 k2 =
     (if k1 = r \<and> k2 = q
      then Some (spend (update_item (fst (get_item r q now ps rb)) now ps))
      else lookup rb k1 k2)"
  by (cases "get_item r q now ps rb")
     (use lookup_get_item [of r q now ps rb] in
      \<open>auto simp add: consume_token_def Let_def lookup_set_item spend_def split: prod.splits\<close>)

subsection \<open>Validation\<close>

lemma check_params_JObj:
  "check_params (x # xs) j = Inr u \<Longrightarrow> \<exists>d. j = JObj d"
  by (cases j) simp_all

lemma validate_request_ids:
  assumes "validate_request ev = Inr u"
  shows "\<exists>q r d. ev_requester_id ev = Some q \<and> ev_resource_id ev = Some r
           \<and> get_throttle_params ev = JObj d"
proof -
  from assms have c: "check_params [''fill_rate'', ''bucket_max'', ''bucket_start'']
             (get_throttle_params ev) = Inr u"
    by (simp add: validate_request_def split: if_splits)
  from assms have "ev_requester_id ev \<noteq> None" "ev_resource_id ev \<noteq> None"
    by (auto simp add: validate_request_def split: if_splits)
  with check_params_JObj [OF c] show ?thesis by auto
qed

lemma evaluate_params_JObj:
  "\<exists>ps. evaluate_params (JObj d) = Inr ps"
  by (simp add: evaluate_params_def)

lemma validate_request_params:
  assumes "validate_request ev = Inr u"
  obtains q r ps where "ev_requester_id ev = Some q" and "ev_resource_id ev = Some r"
    and "evaluate_params (get_throttle_params ev) = Inr ps"
  using validate_request_ids [OF assms] evaluate_params_JObj by metis

subsection \<open>One request\<close>

lemma handle_event_valid:
  assumes "validate_request ev = Inr u"
    and "ev_requester_id ev = Some q" and "ev_resource_id ev = Some r"
    and "evaluate_params (get_throttle_params ev) = Inr ps"
  shows "handle_event now ev rb =
           (if fst (consume_token q r now ps rb)
            then Inr \<lparr>allow_request = True, denial_details = None\<rparr>
            else Inr \<lparr>allow_request = False, denial_details = Some ''No detail today!''\<rparr>,
            snd (consume_token q r now ps rb))"
  using assms by (simp add: handle_event_def split: prod.splits)

lemma handle_event_error:
  "fst (handle_event now ev rb) = Inl e \<Longrightarrow> snd (handle_event now ev rb) = rb"
  by (auto simp add: handle_event_def Let_def
      split: sum.splits option.splits prod.splits if_splits)

lemma handle_event_step:
  assumes v: "validate_request ev = Inr ()"
    and ids: "ev_requester_id ev = Some q" "ev_resource_id ev = Some r"
    and ps: "evaluate_params (get_throttle_params ev) = Inr ps"
  shows "fst (handle_event now ev rb) =
           (if num_tokens (update_item (fst (get_item q r now ps rb)) now ps) - 1 < 0
            then denied else allowed)"
    and "lookup (snd (handle_event now ev rb)) q r =
           Some (spend (update_item (fst (get_item q r now ps rb)) now ps))"
  using handle_event_valid [OF v ids ps, of now rb]
  by (simp_all add: fst_consume_token lookup_consume_token allowed_def denied_def)



text \<open>
  Claim C9. A call of \<^verbatim>\<open>handle_event\<close> for the requester \<open>q\<close> and the resource
  \<open>a\<close> leaves the item of every other key pair as it was, in all its fields: the pair
  of the same requester with another resource \<open>b\<close> is one of them. Nor does the call
  read another pair: its outcome is the same in any store that holds the same item for
  \<open>(q, a)\<close>.
\<close>

theorem handle_event_frame:
  assumes "ev_requester_id ev = Some q" and "ev_resource_id ev = Some a"
    and "(q', b) \<noteq> (q, a)"
    and "lookup rb' q a = lookup rb q a"
  shows "lookup (snd (handle_event now ev rb)) q' b = lookup rb q' b
         \<and> fst (handle_event now ev rb') = fst (handle_event now ev rb)"
proof (cases "validate_request ev")
  case (Inl e)
  then show ?thesis by (simp add: handle_event_def)
next
  case (Inr u)
  then obtain q0 r0 ps where "ev_requester_id ev = Some q0" "ev_resource_id ev = Some r0"
    and ps: "evaluate_params (get_throttle_params ev) = Inr ps"
    by (rule validate_request_params)
  show ?thesis
    using handle_event_valid [OF Inr assms(1,2) ps, of now rb]
      handle_event_valid [OF Inr assms(1,2) ps, of now rb'] assms(3,4)
    by (auto simp add: lookup_consume_token fst_consume_token fst_get_item)
qed

theorem handle_event_frame_witness:
  "(''alice'', ''B'') \<noteq> (''alice'', ''A'')
   \<and> lookup (snd (handle_event 4
         \<lparr>ev_requester_id = Some ''alice'', ev_resource_id = Some ''A'',
          ev_throttle_params = None\<rparr>
         [(''alice'', [(''A'', \<lparr>last_access = 1, num_tokens = 2,
                          last_params = default_params\<rparr>),
                       (''B'', \<lparr>last_access = 1, num_tokens = 5,
                          last_params = default_params\<rparr>)])])) ''alice'' ''B''
       = Some \<lparr>last_access = 1, num_tokens = 5, last_params = default_params\<rparr>
   \<and> lookup (snd (handle_event 4
         \<lparr>ev_requester_id = Some ''alice'', ev_resource_id = Some ''A'',
          ev_throttle_params = None\<rparr>
         [(''alice'', [(''A'', \<lparr>last_access = 1, num_tokens = 2,
                          last_params = default_params\<rparr>),
                       (''B'', \<lparr>last_access = 1, num_tokens = 5,
                          last_params = default_params\<rparr>)])])) ''alice'' ''A''
       = Some \<lparr>last_access = 4, num_tokens = 4, last_params = default_params\<rparr>"
  using handle_event_frame
    [of "\<lparr>ev_requester_id = Some ''alice'', ev_resource_id = Some ''A'',
          ev_throttle_params = None\<rparr>" "''alice''" "''A''" "''alice''" "''B''"
        "[(''alice'', [(''A'', \<lparr>last_access = 1, num_tokens = 2,
                          last_params = default_params\<rparr>),
                       (''B'', \<lparr>last_access = 1, num_tokens = 5,
                          last_params = default_params\<rparr>)])]"
        "[(''alice'', [(''A'', \<lparr>last_access = 1, num_tokens = 2,
                          last_params = default_params\<rparr>),
                       (''B'', \<lparr>last_access = 1, num_tokens = 5,
                          last_params = default_params\<rparr>)])]" 4]
  by (simp add: handle_event_def validate_request_def get_throttle_params_def
      evaluate_params_def consume_token_def get_item_def set_item_def update_item_def
      lookup_def default_params_def
      TOKEN_BUCKET_FILL_RATE_def TOKEN_BUCKET_MAX_def TOKEN_BUCKET_START_def Let_def)

subsection \<open>Requests with the default parameters\<close>

lemma serve_same_time:
  assumes v: "validate_request ev = Inr ()"
    and ids: "ev_requester_id ev = Some q" "ev_resource_id ev = Some r"
    and ps: "evaluate_params (get_throttle_params ev) = Inr default_params"
  shows "lookup rb q r = Some it \<Longrightarrow> last_access it = now \<Longrightarrow>
         num_tokens it = of_nat k \<Longrightarrow> k \<le> 10 \<Longrightarrow>
         fst (serve (replicate (Suc k) (now, ev)) rb) = replicate k allowed @ [denied]"
proof (induction k arbitrary: rb it)
  case 0
  then have "fst (handle_event now ev rb) = denied"
    using handle_event_step [OF v ids ps, of now rb]
    by (simp add: fst_get_item update_item_def default_params_def TOKEN_BUCKET_MAX_def)
  then show ?case
    by (simp add: split_beta Let_def)
next
  case (Suc k)
  let ?rb1 = "snd (handle_event now ev rb)"
  let ?it1 = "spend (update_item it now default_params)"
  have a: "fst (handle_event now ev rb) = allowed" and l: "lookup ?rb1 q r = Some ?it1"
    using handle_event_step [OF v ids ps, of now rb] Suc.prems
    by (simp_all add: fst_get_item update_item_def default_params_def TOKEN_BUCKET_MAX_def
        TOKEN_BUCKET_FILL_RATE_def)
  have "last_access ?it1 = now" "num_tokens ?it1 = of_nat k"
    using Suc.prems
    by (simp_all add: spend_def update_item_def default_params_def TOKEN_BUCKET_MAX_def
        TOKEN_BUCKET_FILL_RATE_def)
  from Suc.IH [OF l this] Suc.prems
  have "fst (serve (replicate (Suc k) (now, ev)) ?rb1) = replicate k allowed @ [denied]"
    by simp
  with a show ?case
    by (simp add: split_beta Let_def)
qed

text \<open>
  Claim C4. For a key pair the store has no item for, and an event that evaluates to
  the default parameters (\<open>fill_rate = 1\<close>, \<open>bucket_max = 10\<close>,
  \<open>bucket_start = 10\<close>), eleven requests served at the same clock reading give ten
  times \<open>allow_request = True\<close> and then \<open>allow_request = False\<close>.
\<close>

theorem first_requests:
  assumes v: "validate_request ev = Inr ()"
    and ids: "ev_requester_id ev = Some q" "ev_resource_id ev = Some r"
    and ps: "evaluate_params (get_throttle_params ev) = Inr default_params"
    and new: "lookup rb q r = None"
  shows "fst (serve (replicate 11 (now, ev)) rb) = replicate 10 allowed @ [denied]"
proof -
  let ?rb1 = "snd (handle_event now ev rb)"
  let ?it1 = "spend (update_item (new_item now default_params) now default_params)"
  have a: "fst (handle_event now ev rb) = allowed" and l: "lookup ?rb1 q r = Some ?it1"
    using handle_event_step [OF v ids ps, of now rb] new
    by (simp_all add: fst_get_item new_item_def update_item_def default_params_def
        TOKEN_BUCKET_MAX_def TOKEN_BUCKET_FILL_RATE_def TOKEN_BUCKET_START_def)
  have "last_access ?it1 = now" "num_tokens ?it1 = of_nat 9"
    by (simp_all add: spend_def new_item_def update_item_def default_params_def
        TOKEN_BUCKET_MAX_def TOKEN_BUCKET_FILL_RATE_def TOKEN_BUCKET_START_def)
  from serve_same_time [OF v ids ps l this]
  have "fst (serve (replicate (Suc 9) (now, ev)) ?rb1) = replicate 9 allowed @ [denied]"
    by simp
  moreover have "replicate 11 (now, ev) = (now, ev) # replicate (Suc 9) (now, ev)"
    by (simp add: numeral_eq_Suc)
  moreover have "replicate 10 allowed = allowed # replicate 9 allowed"
    by (simp add: numeral_eq_Suc)
  ultimately show ?thesis using a
    by (simp add: split_beta Let_def)
qed

theorem first_requests_witness:
  "validate_request \<lparr>ev_requester_id = Some ''alice'', ev_resource_id = Some ''api'',
      ev_throttle_params = None\<rparr> = Inr ()
   \<and> evaluate_params (get_throttle_params \<lparr>ev_requester_id = Some ''alice'',
         ev_resource_id = Some ''api'', ev_throttle_params = None\<rparr>)
       = Inr \<lparr>fill_rate = 1, bucket_max = 10, bucket_start = 10\<rparr>
   \<and> lookup init ''alice'' ''api'' = None
   \<and> fst (serve (replicate 11 (0, \<lparr>ev_requester_id = Some ''alice'',
             ev_resource_id = Some ''api'', ev_throttle_params = None\<rparr>)) init)
       = replicate 10 allowed @ [denied]"
  using first_requests [of "\<lparr>ev_requester_id = Some ''alice'', ev_resource_id = Some ''api'',
      ev_throttle_params = None\<rparr>" "''alice''" "''api''" init 0]
  by (simp add: validate_request_def get_throttle_params_def evaluate_params_def
      default_params_def lookup_def init_def TOKEN_BUCKET_MAX_def TOKEN_BUCKET_FILL_RATE_def
      TOKEN_BUCKET_START_def)

text \<open>
  Claim C6. With the default parameters, when the item of a key pair holds 0 tokens and
  was last accessed at \<open>t\<close>, a refill at \<open>t + 1\<close> gives it exactly 1 token: of two
  requests served at \<open>t + 1\<close> the first is allowed and the second is denied.
\<close>

theorem refill_recovery:
  assumes v: "validate_request ev = Inr ()"
    and ids: "ev_requester_id ev = Some q" "ev_resource_id ev = Some r"
    and ps: "evaluate_params (get_throttle_params ev) = Inr default_params"
    and it: "lookup rb q r = Some it" "num_tokens it = 0" "last_access it = t"
  shows "num_tokens (update_item it (t + 1) default_params) = 1
         \<and> fst (serve [(t + 1, ev), (t + 1, ev)] rb) = [allowed, denied]"
proof -
  let ?rb1 = "snd (handle_event (t + 1) ev rb)"
  let ?it1 = "spend (update_item it (t + 1) default_params)"
  have r: "num_tokens (update_item it (t + 1) default_params) = 1"
    using it by (simp add: update_item_def default_params_def TOKEN_BUCKET_MAX_def
        TOKEN_BUCKET_FILL_RATE_def)
  have a: "fst (handle_event (t + 1) ev rb) = allowed" and l: "lookup ?rb1 q r = Some ?it1"
    using handle_event_step [OF v ids ps, of "t + 1" rb] it r
    by (simp_all add: fst_get_item)
  have "last_access ?it1 = t + 1" "num_tokens ?it1 = 0"
    using r by (simp_all add: spend_def)
  then have "num_tokens (update_item ?it1 (t + 1) default_params) = 0"
    by (simp add: update_item_def default_params_def TOKEN_BUCKET_MAX_def)
  then have d: "fst (handle_event (t + 1) ev ?rb1) = denied"
    using handle_event_step [OF v ids ps, of "t + 1" ?rb1] l
    by (simp add: fst_get_item)
  show ?thesis using r a d
    by (simp add: split_beta Let_def)
qed

theorem refill_recovery_witness:
  "snd (serve (replicate 11 (7, \<lparr>ev_requester_id = Some ''alice'',
          ev_resource_id = Some ''api'', ev_throttle_params = None\<rparr>)) init)
     = [(''alice'', [(''api'', \<lparr>last_access = 7, num_tokens = 0,
          last_params = default_params\<rparr>)])]
   \<and> lookup [(''alice'', [(''api'', \<lparr>last_access = 7, num_tokens = 0,
        last_params = default_params\<rparr>)])] ''alice'' ''api''
     = Some \<lparr>last_access = 7, num_tokens = 0, last_params = default_params\<rparr>
   \<and> fst (serve [(7 + 1, \<lparr>ev_requester_id = Some ''alice'', ev_resource_id = Some ''api'',
                 ev_throttle_params = None\<rparr>),
                (7 + 1, \<lparr>ev_requester_id = Some ''alice'', ev_resource_id = Some ''api'',
                 ev_throttle_params = None\<rparr>)]
         [(''alice'', [(''api'', \<lparr>last_access = 7, num_tokens = 0,
            last_params = default_params\<rparr>)])])
       = [allowed, denied]"
proof -
  have "snd (serve (replicate 11 (7, \<lparr>ev_requester_id = Some ''alice'',
          ev_resource_id = Some ''api'', ev_throttle_params = None\<rparr>)) init)
     = [(''alice'', [(''api'', \<lparr>last_access = 7, num_tokens = 0,
          last_params = default_params\<rparr>)])]"
    by (simp add: numeral_eq_Suc handle_event_def validate_request_def
        get_throttle_params_def evaluate_params_def consume_token_def get_item_def
        set_item_def update_item_def default_params_def init_def
        TOKEN_BUCKET_FILL_RATE_def TOKEN_BUCKET_MAX_def TOKEN_BUCKET_START_def Let_def)
  then show ?thesis
    using refill_recovery [of "\<lparr>ev_requester_id = Some ''alice'', ev_resource_id = Some ''api'',
      ev_throttle_params = None\<rparr>" "''alice''" "''api''"
      "[(''alice'', [(''api'', \<lparr>last_access = 7, num_tokens = 0,
            last_params = default_params\<rparr>)])]"
      "\<lparr>last_access = 7, num_tokens = 0, last_params = default_params\<rparr>" 7]
    by (simp add: validate_request_def get_throttle_params_def evaluate_params_def
        default_params_def lookup_def)
qed

section \<open>What validation rejects\<close>






section \<open>The store as a list\<close>

subsection \<open>Association lists\<close>

lemma map_entry_update:
  "map_of al k = Some v \<Longrightarrow> AList.map_entry k f al = AList.update k (f v) al"
  by (induction al) auto

lemma list_all_update:
  "P (k, v) \<Longrightarrow> list_all P al \<Longrightarrow> list_all P (AList.update k v al)"
  by (induction al) auto

lemma list_all_delete:
  "list_all P al \<Longrightarrow> list_all P (AList.delete k al)"
  by (induction al) auto

lemma list_all_map_entry:
  "list_all P al \<Longrightarrow> (\<And>v. P (k, v) \<Longrightarrow> P (k, f v)) \<Longrightarrow> list_all P (AList.map_entry k f al)"
  by (induction al) auto

lemma list_all_map_of:
  "list_all P al \<Longrightarrow> map_of al k = Some v \<Longrightarrow> P (k, v)"
  by (induction al) (auto split: if_splits)

subsection \<open>The store after \<^verbatim>\<open>_consume_token\<close>\<close>

text \<open>
  Whatever the store held, the method leaves the spent, refilled item under its key pair,
  in a group that it creates when the outer key is new.
\<close>

lemma consume_token_store:
  "snd (consume_token r q now ps rb) =
     AList.update r
       (AList.update q (spend (update_item (fst (get_item r q now ps rb)) now ps))
          (case map_of rb r of None \<Rightarrow> [] | Some bc \<Rightarrow> bc))
       rb"
proof (cases "map_of rb r")
  case None
  then show ?thesis
    by (simp add: consume_token_def get_item_def set_item_def spend_def Let_def
        map_entry_update AList.update_conv')
next
  case (Some bc)
  show ?thesis
  proof (cases "map_of bc q")
    case None
    with Some show ?thesis
      by (simp add: consume_token_def get_item_def set_item_def spend_def Let_def
        map_entry_update AList.update_conv')
  next
    case (Some it)
    with \<open>map_of rb r = Some bc\<close> show ?thesis
      by (simp add: consume_token_def get_item_def set_item_def spend_def Let_def
        map_entry_update AList.update_conv')
  qed
qed

lemma handle_event_store:
  "snd (handle_event now ev rb) = rb
   \<or> (\<exists>q r ps. validate_request ev = Inr ()
        \<and> evaluate_params (get_throttle_params ev) = Inr ps
        \<and> snd (handle_event now ev rb) = snd (consume_token q r now ps rb))"
proof (cases "fst (handle_event now ev rb)")
  case (Inl e)
  then show ?thesis by (simp add: handle_event_error)
next
  case (Inr resp)
  then obtain u where v: "validate_request ev = Inr u"
    by (cases "validate_request ev") (auto simp add: handle_event_def)
  then obtain q r ps where ids: "ev_requester_id ev = Some q" "ev_resource_id ev = Some r"
    and ps: "evaluate_params (get_throttle_params ev) = Inr ps"
    by (rule validate_request_params)
  from handle_event_valid [OF v ids ps, of now rb] ps v show ?thesis
    by auto
qed







lemma wf_store_consume_token:
  assumes "wf_store rb"
  shows "wf_store (snd (consume_token r q now ps rb))"
proof -
  have "distinct (map fst (case map_of rb r of None \<Rightarrow> [] | Some bc \<Rightarrow> bc))"
    using assms by (auto simp add: wf_store_def split: option.splits dest: list_all_map_of)
  then show ?thesis
    unfolding consume_token_store
    using assms by (auto simp add: wf_store_def intro!: list_all_update AList.distinct_update)
qed


lemma wf_store_handle_event:
  "wf_store rb \<Longrightarrow> wf_store (snd (handle_event now ev rb))"
  using handle_event_store [of now ev rb] by (auto intro: wf_store_consume_token)


section \<open>The cleanup pass\<close>

subsection \<open>The mark loop\<close>

lemma mark_collection_Cons:
  "mark_collection clock r ((q, it) # rest) acc =
     ((q, refill clock r q it) #
        fst (mark_collection clock r rest
               (if full (refill clock r q it) then List.insert (r, q) acc else acc)),
      snd (mark_collection clock r rest
             (if full (refill clock r q it) then List.insert (r, q) acc else acc)))"
  by (simp add: refill_def full_def Let_def split_beta)

lemma mark_Cons:
  "mark clock ((r, bc) # rest) acc =
     ((r, fst (mark_collection clock r bc acc)) #
        fst (mark clock rest (snd (mark_collection clock r bc acc))),
      snd (mark clock rest (snd (mark_collection clock r bc acc))))"
  by (simp add: Let_def split_beta)

lemma mark_collection_fst:
  "fst (mark_collection clock r bc acc) = AList.map_ran (refill clock r) bc"
proof (induction bc arbitrary: acc)
  case Nil
  then show ?case by simp
next
  case (Cons a bc)
  obtain q it where "a = (q, it)" by (cases a)
  with Cons.IH show ?case by (simp only: mark_collection_Cons fst_conv AList.map_ran_simps)
qed



lemma mark_fst:
  "fst (mark clock rb acc) = AList.map_ran (\<lambda>r. AList.map_ran (refill clock r)) rb"
proof (induction rb arbitrary: acc)
  case Nil
  then show ?case by simp
next
  case (Cons a rb)
  obtain r bc where "a = (r, bc)" by (cases a)
  with Cons.IH show ?case
    by (simp only: mark_Cons fst_conv AList.map_ran_simps mark_collection_fst)
qed






subsection \<open>The sweep loop\<close>

text \<open>
  One turn of the loop, in terms of the group found under the outer key: the group
  without the inner key replaces it, or the outer key is removed when nothing is left.
\<close>

lemma sweep_Cons:
  "sweep ((r, q) # ms) rb =
     (case map_of rb r of
        None \<Rightarrow> (Inl KeyError, rb)
      | Some bc \<Rightarrow>
          if AList.delete q bc = [] then sweep ms (AList.delete r rb)
          else sweep ms (AList.update r (AList.delete q bc) rb))"
  by (auto simp add: Let_def map_entry_update AList.update_conv' AList.delete_update_same
      split: option.splits)

declare sweep.simps(2) [simp del]

lemma sweep_list_all:
  assumes "\<And>k bc q. G bc \<Longrightarrow> G (AList.delete q bc)"
  shows "list_all (\<lambda>(k, bc). G bc) rb \<Longrightarrow> list_all (\<lambda>(k, bc). G bc) (snd (sweep ms rb))"
proof (induction ms arbitrary: rb)
  case Nil
  then show ?case by simp
next
  case (Cons a ms)
  obtain r q where a: "a = (r, q)" by (cases a)
  show ?case
  proof (cases "map_of rb r")
    case None
    with Cons.prems show ?thesis by (simp add: a sweep_Cons)
  next
    case (Some bc)
    with Cons.prems have "G bc" by (auto dest: list_all_map_of)
    then have "G (AList.delete q bc)" by (rule assms)
    with Cons.prems have "list_all (\<lambda>(k, bc). G bc) (AList.update r (AList.delete q bc) rb)"
      by (intro list_all_update) simp_all
    moreover from Cons.prems have "list_all (\<lambda>(k, bc). G bc) (AList.delete r rb)"
      by (rule list_all_delete)
    ultimately show ?thesis
      using Some by (simp add: a sweep_Cons Cons.IH)
  qed
qed


lemma distinct_sweep:
  "distinct (map fst rb) \<Longrightarrow> distinct (map fst (snd (sweep ms rb)))"
proof (induction ms arbitrary: rb)
  case Nil
  then show ?case by simp
next
  case (Cons a ms)
  obtain r q where a: "a = (r, q)" by (cases a)
  from Cons.prems show ?case
    by (auto simp add: a sweep_Cons AList.distinct_update AList.distinct_delete
        intro!: Cons.IH split: option.splits)
qed

lemma wf_store_sweep:
  "wf_store rb \<Longrightarrow> wf_store (snd (sweep ms rb))"
  unfolding wf_store_def
  using sweep_list_all [where G = "\<lambda>bc. distinct (map fst bc)", OF AList.distinct_delete]
  by (auto intro: distinct_sweep)



lemma sweep_lookup:
  assumes "distinct ms" and "\<forall>(r, q) \<in> set ms. lookup rb r q \<noteq> None"
  shows "fst (sweep ms rb) = Inr ()
         \<and> (\<forall>k1 k2. lookup (snd (sweep ms rb)) k1 k2 =
               (if (k1, k2) \<in> set ms then None else lookup rb k1 k2))"
  using assms
proof (induction ms arbitrary: rb)
  case Nil
  then show ?case by simp
next
  case (Cons a ms)
  obtain r q where a: "a = (r, q)" by (cases a)
  from Cons.prems(2) obtain bc where bc: "map_of rb r = Some bc"
    by (auto simp add: a lookup_def split: option.splits)
  define rb2 where "rb2 = (if AList.delete q bc = [] then AList.delete r rb
                           else AList.update r (AList.delete q bc) rb)"
  have sw: "sweep ((r, q) # ms) rb = sweep ms rb2"
    using bc by (simp add: sweep_Cons rb2_def)
  have l: "lookup rb2 k1 k2 = (if (k1, k2) = (r, q) then None else lookup rb k1 k2)" for k1 k2
  proof (cases "AList.delete q bc = []")
    case True
    have "lookup rb r k2 = None" if "k2 \<noteq> q"
      using AList.map_of_delete [OF that, of bc] True bc by (simp add: lookup_def)
    then show ?thesis
      using True by (auto simp add: rb2_def lookup_delete)
  next
    case False
    have "lookup rb r k2 = map_of bc k2"
      using bc by (simp add: lookup_def)
    with False show ?thesis
      by (auto simp add: rb2_def lookup_update AList.delete_conv')
  qed
  have d: "distinct ms" and n: "(r, q) \<notin> set ms"
    using Cons.prems(1) by (simp_all add: a)
  from n Cons.prems(2) have "\<forall>(r', q') \<in> set ms. lookup rb2 r' q' \<noteq> None"
    by (auto simp add: l a)
  with d have "fst (sweep ms rb2) = Inr ()
         \<and> (\<forall>k1 k2. lookup (snd (sweep ms rb2)) k1 k2 =
               (if (k1, k2) \<in> set ms then None else lookup rb2 k1 k2))"
    by (rule Cons.IH)
  then show ?case
    unfolding a sw by (simp add: l)
qed

text \<open>
  A Python set has no order of its own, and the model sweeps the marked pairs in one
  order. Any other order raises nothing either and leaves the same item under every key
  pair.
\<close>

lemma sweep_any_order:
  assumes "distinct ms" and "distinct ms'" and "set ms' = set ms"
    and "\<forall>(r, q) \<in> set ms. lookup rb r q \<noteq> None"
  shows "fst (sweep ms' rb) = Inr ()
         \<and> lookup (snd (sweep ms' rb)) k1 k2 = lookup (snd (sweep ms rb)) k1 k2"
proof -
  from assms(3,4) have "\<forall>(r, q) \<in> set ms'. lookup rb r q \<noteq> None"
    by simp
  from sweep_lookup [OF assms(2) this] sweep_lookup [OF assms(1,4)] assms(3)
  show ?thesis by simp
qed

subsection \<open>The pass as a whole\<close>

lemma cleanup_eq:
  "cleanup clock rb =
     (if rb = [] then (Inr (), rb)
      else sweep (snd (mark clock rb [])) (fst (mark clock rb [])))"
  by (simp add: cleanup_def split_beta)



lemma wf_store_map_ran:
  "wf_store rb \<Longrightarrow> wf_store (AList.map_ran (\<lambda>r. AList.map_ran (f r)) rb)"
  unfolding wf_store_def
  by (induction rb) auto




lemma wf_store_cleanup:
  "wf_store rb \<Longrightarrow> wf_store (snd (cleanup clock rb))"
  by (cases "rb = []")
     (simp_all add: cleanup_eq mark_fst wf_store_sweep wf_store_map_ran)


lemma wf_store_run:
  "wf_store rb \<Longrightarrow> wf_store (run ops rb)"
  unfolding run_def
proof (induction ops arbitrary: rb)
  case Nil
  then show ?case by simp
next
  case (Cons a ops)
  then show ?case
    by (cases a) (simp_all add: wf_store_handle_event wf_store_cleanup)
qed



lemma wf_store_reachable:
  "wf_store (run ops init)"
  by (rule wf_store_run) (simp add: wf_store_def init_def)









end
